theory Spec2Isabelle
  imports Main
begin

section \<open>The key manager of \<^verbatim>\<open>main.go\<close>\<close>

text \<open>
  The program keeps a pool of keys in a \<^verbatim>\<open>KeyManager\<close>: a map from key to
  \<^verbatim>\<open>KeyMetadata\<close>, a slice of available keys, a map from blocked key to the time
  it was blocked, and two mutexes. The six methods called by the HTTP handlers and the
  body of the endless loop of \<^verbatim>\<open>BackgroundTask\<close> are embedded below as functions
  on that state. Whatever a method reads from outside the state is a parameter of its
  model: the integer drawn by \<^verbatim>\<open>rand.Int\<close> or \<^verbatim>\<open>rand.Intn\<close>, every reading of
  \<^verbatim>\<open>time.Now()\<close> (one parameter per call in the source), and the order in which
  \<^verbatim>\<open>range\<close> visits the entries of a map. The lines printed by \<^verbatim>\<open>fmt.Println\<close>
  are output only and are left out.
\<close>

subsection \<open>Time\<close>

text \<open>
  An instant (\<^verbatim>\<open>time.Time\<close>) is the number of nanoseconds since the zero instant
  \<^verbatim>\<open>time.Time{}\<close>; a \<^verbatim>\<open>time.Duration\<close> is a 64-bit count of nanoseconds.
  \<^verbatim>\<open>t.Sub(u)\<close> is the difference, saturated at the largest and the smallest
  duration as the library documents.
\<close>

type_synonym time = int

type_synonym duration = int

definition zeroTime :: time where
  "zeroTime = 0"

definition maxDuration :: duration where
  "maxDuration = 2 ^ 63 - 1"

definition minDuration :: duration where
  "minDuration = - (2 ^ 63)"

definition Second :: duration where
  "Second = 1000000000"

definition Minute :: duration where
  "Minute = 60 * Second"

definition Sub :: "time \<Rightarrow> time \<Rightarrow> duration" where
  "Sub t u =
     (let d = t - u
      in if maxDuration < d then maxDuration
         else if d < minDuration then minDuration
         else d)"

subsection \<open>Data\<close>

record KeyMetadata =
  Key :: string
  CreationTime :: time
  LastAccess :: time
  IsBlocked :: bool
  BlockedAt :: time

text \<open>
  The mutexes are part of the state: \<open>True\<close> is locked. \<^verbatim>\<open>sync.Mutex\<close> is not
  reentrant, so \<^verbatim>\<open>Lock\<close> on a locked mutex does not return until some other
  goroutine unlocks it. A method is modelled as it runs from a given state with no
  other goroutine in between, and there \<^verbatim>\<open>Lock\<close> on a locked mutex never returns:
  the result \<open>None\<close>.
\<close>

record KeyManager =
  keys :: "string \<rightharpoonup> KeyMetadata"
  available :: "string list"
  blocked :: "string \<rightharpoonup> time"
  mu :: bool
  blockMu :: bool

text \<open>The three error values the methods build with \<^verbatim>\<open>errors.New\<close>.\<close>

datatype error =
  NoKeysAvailable         \<comment> \<open>\<^verbatim>\<open>"no keys available"\<close>\<close>
| KeyNotBlockedOrNotExist \<comment> \<open>\<^verbatim>\<open>"key not blocked or not exist"\<close>\<close>
| KeyDoesNotExist         \<comment> \<open>\<^verbatim>\<open>"key does not exist"\<close>\<close>

definition NewKeyManager :: KeyManager where
  "NewKeyManager =
     \<lparr>keys = Map.empty, available = [], blocked = Map.empty, mu = False, blockMu = False\<rparr>"

text \<open>The zero value \<^verbatim>\<open>KeyMetadata{}\<close>, which indexing a map gives for a missing key.\<close>

definition zeroKeyMetadata :: KeyMetadata where
  "zeroKeyMetadata =
     \<lparr>Key = [], CreationTime = zeroTime, LastAccess = zeroTime, IsBlocked = False,
      BlockedAt = zeroTime\<rparr>"

definition index_keys :: "(string \<rightharpoonup> KeyMetadata) \<Rightarrow> string \<Rightarrow> KeyMetadata" where
  "index_keys m key = (case m key of None \<Rightarrow> zeroKeyMetadata | Some metadata \<Rightarrow> metadata)"

subsection \<open>Mutexes\<close>

definition Lock_mu :: "KeyManager \<Rightarrow> KeyManager option" where
  "Lock_mu km = (if mu km then None else Some (km\<lparr>mu := True\<rparr>))"

definition Unlock_mu :: "KeyManager \<Rightarrow> KeyManager" where
  "Unlock_mu km = km\<lparr>mu := False\<rparr>"

definition Lock_blockMu :: "KeyManager \<Rightarrow> KeyManager option" where
  "Lock_blockMu km = (if blockMu km then None else Some (km\<lparr>blockMu := True\<rparr>))"

definition Unlock_blockMu :: "KeyManager \<Rightarrow> KeyManager" where
  "Unlock_blockMu km = km\<lparr>blockMu := False\<rparr>"

subsection \<open>Random keys\<close>

text \<open>
  \<^verbatim>\<open>rand.Int()\<close> is a non-negative integer, the parameter \<open>r\<close>;
  \<^verbatim>\<open>strconv.Itoa\<close> writes it in decimal. \<^verbatim>\<open>rand.Intn(n)\<close>, called with
  \<open>0 < n\<close> only, is some index below \<open>n\<close>: the draw \<open>r\<close> reduced modulo \<open>n\<close>,
  so that every index below \<open>n\<close> is the outcome of some draw.
\<close>

fun Itoa :: "nat \<Rightarrow> string" where
  "Itoa n =
     (if n < 10 then [''0123456789'' ! n]
      else Itoa (n div 10) @ [''0123456789'' ! (n mod 10)])"

declare Itoa.simps [simp del]

definition GenerateRandomKey :: "nat \<Rightarrow> string" where
  "GenerateRandomKey r = ''key'' @ Itoa r"

definition Intn :: "nat \<Rightarrow> nat \<Rightarrow> nat" where
  "Intn r n = r mod n"

subsection \<open>The methods\<close>

definition GenerateNewKey :: "nat \<Rightarrow> time \<Rightarrow> KeyManager \<Rightarrow> (string \<times> KeyManager) option" where
  "GenerateNewKey r now km =
     (case Lock_mu km of
        None \<Rightarrow> None
      | Some km1 \<Rightarrow>
          let newKey = GenerateRandomKey r;
              km2 = km1\<lparr>keys := (keys km1)(newKey \<mapsto>
                      \<lparr>Key = newKey, CreationTime = now, LastAccess = zeroTime,
                       IsBlocked = False, BlockedAt = zeroTime\<rparr>)\<rparr>;
              km3 = km2\<lparr>available := available km2 @ [newKey]\<rparr>
          in Some (newKey, Unlock_mu km3))"

text \<open>
  \<^verbatim>\<open>RetreiveAvailableKey\<close> calls \<^verbatim>\<open>time.Now()\<close> three times: for
  \<^verbatim>\<open>LastAccess\<close>, for \<^verbatim>\<open>BlockedAt\<close> and for the entry of \<^verbatim>\<open>km.blocked\<close>.
  The composite literal names no \<^verbatim>\<open>CreationTime\<close>, which is therefore the zero
  instant.
\<close>

definition RetreiveAvailableKey ::
  "nat \<Rightarrow> time \<Rightarrow> time \<Rightarrow> time \<Rightarrow> KeyManager \<Rightarrow> ((error + string) \<times> KeyManager) option" where
  "RetreiveAvailableKey r now1 now2 now3 km =
     (case Lock_mu km of
        None \<Rightarrow> None
      | Some km1 \<Rightarrow>
          if length (available km1) = 0 then Some (Inl NoKeysAvailable, Unlock_mu km1)
          else
            let index = Intn r (length (available km1));
                key = available km1 ! index;
                km2 = km1\<lparr>available :=
                        take index (available km1) @ drop (index + 1) (available km1)\<rparr>;
                km3 = km2\<lparr>keys := (keys km2)(key \<mapsto>
                        \<lparr>Key = key, CreationTime = zeroTime, LastAccess = now1,
                         IsBlocked = True, BlockedAt = now2\<rparr>)\<rparr>;
                km4 = km3\<lparr>blocked := (blocked km3)(key \<mapsto> now3)\<rparr>
            in Some (Inr key, Unlock_mu km4))"

definition UnblockKey :: "string \<Rightarrow> KeyManager \<Rightarrow> (error option \<times> KeyManager) option" where
  "UnblockKey key km =
     (case Lock_mu km of
        None \<Rightarrow> None
      | Some km1 \<Rightarrow>
          if blocked km1 key \<noteq> None then
            let metadata = index_keys (keys km1) key;
                metadata' = metadata\<lparr>IsBlocked := False\<rparr>;
                km2 = km1\<lparr>blocked := (blocked km1)(key := None)\<rparr>;
                km3 = km2\<lparr>available := available km2 @ [key]\<rparr>;
                km4 = km3\<lparr>keys := (keys km3)(key \<mapsto> metadata')\<rparr>
            in Some (None, Unlock_mu km4)
          else Some (Some KeyNotBlockedOrNotExist, Unlock_mu km1))"

definition DeleteKey :: "string \<Rightarrow> KeyManager \<Rightarrow> (error option \<times> KeyManager) option" where
  "DeleteKey key km =
     (case Lock_mu km of
        None \<Rightarrow> None
      | Some km1 \<Rightarrow>
          let km2 = km1\<lparr>keys := (keys km1)(key := None)\<rparr>;
              km3 = km2\<lparr>blocked := (blocked km2)(key := None)\<rparr>
          in Some (None, Unlock_mu km3))"

definition KeepAlive :: "string \<Rightarrow> time \<Rightarrow> KeyManager \<Rightarrow> (error option \<times> KeyManager) option" where
  "KeepAlive key now km =
     (case Lock_mu km of
        None \<Rightarrow> None
      | Some km1 \<Rightarrow>
          if keys km1 key \<noteq> None then
            let metadata = index_keys (keys km1) key;
                metadata' = metadata\<lparr>LastAccess := now\<rparr>;
                km2 = km1\<lparr>keys := (keys km1)(key \<mapsto> metadata')\<rparr>
            in Some (None, Unlock_mu km2)
          else Some (Some KeyDoesNotExist, Unlock_mu km1))"

definition GetKeyInfo :: "string \<Rightarrow> KeyManager \<Rightarrow> ((error + KeyMetadata) \<times> KeyManager) option" where
  "GetKeyInfo key km =
     (case Lock_mu km of
        None \<Rightarrow> None
      | Some km1 \<Rightarrow>
          (case keys km1 key of
             Some metadata \<Rightarrow> Some (Inr metadata, Unlock_mu km1)
           | None \<Rightarrow> Some (Inl KeyDoesNotExist, Unlock_mu km1)))"

subsection \<open>The background task\<close>

text \<open>
  One round of the loop of \<^verbatim>\<open>BackgroundTask\<close> is two passes. The first holds
  \<^verbatim>\<open>blockMu\<close> and ranges over \<^verbatim>\<open>km.blocked\<close>; its body is \<open>unblockExpired\<close>.
  The second holds \<^verbatim>\<open>mu\<close>, ranges over \<^verbatim>\<open>km.keys\<close> and calls the method
  \<^verbatim>\<open>DeleteKey\<close>, which locks \<^verbatim>\<open>mu\<close> itself. The list of keys is the order in
  which \<^verbatim>\<open>range\<close> visits the map; an entry deleted before it is reached is not
  visited.
\<close>

definition unblockExpired :: "string \<Rightarrow> KeyManager \<Rightarrow> KeyManager" where
  "unblockExpired key km =
     (let metadata = index_keys (keys km) key;
          metadata' = metadata\<lparr>IsBlocked := False\<rparr>;
          km1 = km\<lparr>blocked := (blocked km)(key := None)\<rparr>;
          km2 = km1\<lparr>keys := (keys km1)(key \<mapsto> metadata')\<rparr>
      in km2\<lparr>available := available km2 @ [key]\<rparr>)"

fun blockTimeoutLoop :: "time \<Rightarrow> string list \<Rightarrow> KeyManager \<Rightarrow> KeyManager" where
  "blockTimeoutLoop now [] km = km"
| "blockTimeoutLoop now (key # rest) km =
     (case blocked km key of
        None \<Rightarrow> blockTimeoutLoop now rest km
      | Some blockedTime \<Rightarrow>
          if 20 * Second < Sub now blockedTime
          then blockTimeoutLoop now rest (unblockExpired key km)
          else blockTimeoutLoop now rest km)"

definition blockTimeoutPass :: "time \<Rightarrow> string list \<Rightarrow> KeyManager \<Rightarrow> KeyManager option" where
  "blockTimeoutPass now order km =
     (case Lock_blockMu km of
        None \<Rightarrow> None
      | Some km1 \<Rightarrow> Some (Unlock_blockMu (blockTimeoutLoop now order km1)))"

fun idleExpiryLoop :: "time \<Rightarrow> string list \<Rightarrow> KeyManager \<Rightarrow> KeyManager option" where
  "idleExpiryLoop now [] km = Some km"
| "idleExpiryLoop now (key # rest) km =
     (case keys km key of
        None \<Rightarrow> idleExpiryLoop now rest km
      | Some metadata \<Rightarrow>
          if 1 * Minute < Sub now (LastAccess metadata)
          then (case DeleteKey key km of
                  None \<Rightarrow> None
                | Some (err, km') \<Rightarrow> idleExpiryLoop now rest km')
          else idleExpiryLoop now rest km)"

definition idleExpiryPass :: "time \<Rightarrow> string list \<Rightarrow> KeyManager \<Rightarrow> KeyManager option" where
  "idleExpiryPass now order km =
     (case Lock_mu km of
        None \<Rightarrow> None
      | Some km1 \<Rightarrow>
          (case idleExpiryLoop now order km1 of
             None \<Rightarrow> None
           | Some km2 \<Rightarrow> Some (Unlock_mu km2)))"

text \<open>
  One round: the time is read once, then the two passes run. \<open>order1\<close> is the order
  of the first \<^verbatim>\<open>range\<close>, \<open>order2\<close> that of the second.
\<close>

definition BackgroundTask_round ::
  "time \<Rightarrow> string list \<Rightarrow> string list \<Rightarrow> KeyManager \<Rightarrow> KeyManager option" where
  "BackgroundTask_round now order1 order2 km =
     (case blockTimeoutPass now order1 km of
        None \<Rightarrow> None
      | Some km1 \<Rightarrow> idleExpiryPass now order2 km1)"

subsection \<open>The block timeout as the specification words it\<close>

text \<open>
  The specification describes the first pass as: every id of the blocked set whose
  timestamp is more than twenty seconds older than the current time is released, as
  the release operation would. \<open>blockExpired\<close> is that condition and
  \<open>releaseAll\<close> calls \<^verbatim>\<open>UnblockKey\<close> on each id of a list in turn.
\<close>

definition blockExpired :: "time \<Rightarrow> KeyManager \<Rightarrow> string \<Rightarrow> bool" where
  "blockExpired now km key =
     (case blocked km key of None \<Rightarrow> False | Some blockedAt \<Rightarrow> 20 * Second < now - blockedAt)"

fun releaseAll :: "string list \<Rightarrow> KeyManager \<Rightarrow> KeyManager option" where
  "releaseAll [] km = Some km"
| "releaseAll (key # rest) km =
     (case UnblockKey key km of
        Some (None, km') \<Rightarrow> releaseAll rest km'
      | _ \<Rightarrow> None)"

subsection \<open>Reachable states\<close>

text \<open>
  The states of the pool after any number of completed calls, starting from
  \<^verbatim>\<open>NewKeyManager()\<close>. The two passes of the background task are separate steps:
  between them it holds no lock and any method may run. A pass ranges over its map in
  any order. The parameter \<open>admitted\<close> says which random keys
  \<^verbatim>\<open>GenerateNewKey\<close> may draw in a state: any key at all (\<open>anyKey\<close>), or only
  a key that is in none of the three structures (\<open>unusedKey\<close>).
\<close>

definition anyKey :: "KeyManager \<Rightarrow> string \<Rightarrow> bool" where
  "anyKey km key = True"

definition unusedKey :: "KeyManager \<Rightarrow> string \<Rightarrow> bool" where
  "unusedKey km key =
     (key \<notin> set (available km) \<and> blocked km key = None \<and> keys km key = None)"

inductive reachable :: "(KeyManager \<Rightarrow> string \<Rightarrow> bool) \<Rightarrow> KeyManager \<Rightarrow> bool"
  for admitted :: "KeyManager \<Rightarrow> string \<Rightarrow> bool" where
  reachable_New: "reachable admitted NewKeyManager"
| reachable_GenerateNewKey:
    "reachable admitted km \<Longrightarrow> admitted km (GenerateRandomKey r) \<Longrightarrow>
     GenerateNewKey r now km = Some (key, km') \<Longrightarrow> reachable admitted km'"
| reachable_RetreiveAvailableKey:
    "reachable admitted km \<Longrightarrow>
     RetreiveAvailableKey r now1 now2 now3 km = Some (res, km') \<Longrightarrow> reachable admitted km'"
| reachable_UnblockKey:
    "reachable admitted km \<Longrightarrow> UnblockKey key km = Some (err, km') \<Longrightarrow> reachable admitted km'"
| reachable_DeleteKey:
    "reachable admitted km \<Longrightarrow> DeleteKey key km = Some (err, km') \<Longrightarrow> reachable admitted km'"
| reachable_KeepAlive:
    "reachable admitted km \<Longrightarrow> KeepAlive key now km = Some (err, km') \<Longrightarrow> reachable admitted km'"
| reachable_GetKeyInfo:
    "reachable admitted km \<Longrightarrow> GetKeyInfo key km = Some (info, km') \<Longrightarrow> reachable admitted km'"
| reachable_blockTimeoutPass:
    "reachable admitted km \<Longrightarrow> distinct order \<Longrightarrow> set order = dom (blocked km) \<Longrightarrow>
     blockTimeoutPass now order km = Some km' \<Longrightarrow> reachable admitted km'"
| reachable_idleExpiryPass:
    "reachable admitted km \<Longrightarrow> distinct order \<Longrightarrow> set order = dom (keys km) \<Longrightarrow>
     idleExpiryPass now order km = Some km' \<Longrightarrow> reachable admitted km'"

definition pool_inv :: "KeyManager \<Rightarrow> bool" where
  "pool_inv km =
     (\<not> mu km \<and> \<not> blockMu km \<and> distinct (available km)
      \<and> set (available km) \<inter> dom (blocked km) = {}
      \<and> dom (blocked km) \<subseteq> dom (keys km))"

subsection \<open>Example pools\<close>

text \<open>
  Small pools on which the theorems are evaluated: after one key is created, after it
  is handed out, after it is released, after it is deleted while still queued, and
  after the same key is drawn twice.
\<close>

definition pool_created :: KeyManager where
  "pool_created =
     \<lparr>keys = [''key7'' \<mapsto> \<lparr>Key = ''key7'', CreationTime = 100, LastAccess = 0,
                               IsBlocked = False, BlockedAt = 0\<rparr>],
      available = [''key7''], blocked = Map.empty, mu = False, blockMu = False\<rparr>"

definition pool_checked_out :: KeyManager where
  "pool_checked_out =
     \<lparr>keys = [''key7'' \<mapsto> \<lparr>Key = ''key7'', CreationTime = 0, LastAccess = 201,
                               IsBlocked = True, BlockedAt = 202\<rparr>],
      available = [], blocked = [''key7'' \<mapsto> 203], mu = False, blockMu = False\<rparr>"

definition pool_released :: KeyManager where
  "pool_released =
     \<lparr>keys = [''key7'' \<mapsto> \<lparr>Key = ''key7'', CreationTime = 0, LastAccess = 201,
                               IsBlocked = False, BlockedAt = 202\<rparr>],
      available = [''key7''], blocked = Map.empty, mu = False, blockMu = False\<rparr>"

definition pool_stale :: KeyManager where
  "pool_stale =
     \<lparr>keys = Map.empty, available = [''key7''], blocked = Map.empty,
      mu = False, blockMu = False\<rparr>"

definition now_2026 :: time where
  "now_2026 = 63900000000 * Second"

definition pool_fresh :: KeyManager where
  "pool_fresh =
     \<lparr>keys = [''key7'' \<mapsto> \<lparr>Key = ''key7'', CreationTime = now_2026, LastAccess = 0,
                               IsBlocked = False, BlockedAt = 0\<rparr>],
      available = [''key7''], blocked = Map.empty, mu = False, blockMu = False\<rparr>"

definition pool_created_twice :: KeyManager where
  "pool_created_twice =
     \<lparr>keys = [''key7'' \<mapsto> \<lparr>Key = ''key7'', CreationTime = 101, LastAccess = 0,
                               IsBlocked = False, BlockedAt = 0\<rparr>],
      available = [''key7'', ''key7''], blocked = Map.empty, mu = False, blockMu = False\<rparr>"

definition pool_collided :: KeyManager where
  "pool_collided =
     \<lparr>keys = [''key7'' \<mapsto> \<lparr>Key = ''key7'', CreationTime = 0, LastAccess = 201,
                               IsBlocked = True, BlockedAt = 202\<rparr>],
      available = [''key7''], blocked = [''key7'' \<mapsto> 203], mu = False, blockMu = False\<rparr>"

text \<open>
  The pool whose one key is handed out, seen while some method running on another
  goroutine holds \<^verbatim>\<open>mu\<close>, and the pool after the first pass has run in that
  state.
\<close>

definition pool_mu_held :: KeyManager where
  "pool_mu_held = pool_checked_out\<lparr>mu := True\<rparr>"

definition pool_mu_held_released :: KeyManager where
  "pool_mu_held_released = pool_released\<lparr>mu := True\<rparr>"

section \<open>What each method does when it can take its lock\<close>

text \<open>
  From a state in which \<^verbatim>\<open>mu\<close> is free every method returns, and releases the
  lock again; from a state in which it is held, none does.
\<close>

lemma GenerateRandomKey_example: "GenerateRandomKey 1207 = ''key1207''"
  by (simp add: GenerateRandomKey_def Itoa.simps)

lemma Sub_gt_iff:
  "c < maxDuration \<Longrightarrow> minDuration \<le> c \<Longrightarrow> (c < Sub t u) = (c < t - u)"
  by (auto simp: Sub_def Let_def)

lemma DeleteKey_free:
  "\<not> mu km \<Longrightarrow>
     DeleteKey key km =
       Some (None, km\<lparr>keys := (keys km)(key := None), blocked := (blocked km)(key := None)\<rparr>)"
  by (simp add: DeleteKey_def Lock_mu_def Unlock_mu_def Let_def)

lemma DeleteKey_held: "mu km \<Longrightarrow> DeleteKey key km = None"
  by (simp add: DeleteKey_def Lock_mu_def)

lemma GenerateNewKey_held: "mu km \<Longrightarrow> GenerateNewKey r now km = None"
  by (simp add: GenerateNewKey_def Lock_mu_def)

lemma RetreiveAvailableKey_held:
  "mu km \<Longrightarrow> RetreiveAvailableKey r now1 now2 now3 km = None"
  by (simp add: RetreiveAvailableKey_def Lock_mu_def)

lemma UnblockKey_held: "mu km \<Longrightarrow> UnblockKey key km = None"
  by (simp add: UnblockKey_def Lock_mu_def)

lemma KeepAlive_held: "mu km \<Longrightarrow> KeepAlive key now km = None"
  by (simp add: KeepAlive_def Lock_mu_def)

lemma GetKeyInfo_held: "mu km \<Longrightarrow> GetKeyInfo key km = None"
  by (simp add: GetKeyInfo_def Lock_mu_def)

lemma idleExpiryPass_held: "mu km \<Longrightarrow> idleExpiryPass now order km = None"
  by (simp add: idleExpiryPass_def Lock_mu_def)

lemma UnblockKey_free_blocked:
  "\<not> mu km \<Longrightarrow> blocked km key = Some t \<Longrightarrow>
     UnblockKey key km =
       Some (None, km\<lparr>keys := (keys km)(key \<mapsto> (index_keys (keys km) key)\<lparr>IsBlocked := False\<rparr>),
                       available := available km @ [key],
                       blocked := (blocked km)(key := None)\<rparr>)"
  by (simp add: UnblockKey_def Lock_mu_def Unlock_mu_def Let_def)

lemma UnblockKey_free_not_blocked:
  "\<not> mu km \<Longrightarrow> blocked km key = None \<Longrightarrow>
     UnblockKey key km = Some (Some KeyNotBlockedOrNotExist, km)"
  by (simp add: UnblockKey_def Lock_mu_def Unlock_mu_def Let_def)

lemma GenerateNewKey_free:
  "\<not> mu km \<Longrightarrow>
     GenerateNewKey r now km =
       Some (GenerateRandomKey r,
             km\<lparr>keys := (keys km)(GenerateRandomKey r \<mapsto>
                    \<lparr>Key = GenerateRandomKey r, CreationTime = now, LastAccess = zeroTime,
                     IsBlocked = False, BlockedAt = zeroTime\<rparr>),
                available := available km @ [GenerateRandomKey r]\<rparr>)"
  by (simp add: GenerateNewKey_def Lock_mu_def Unlock_mu_def Let_def)

lemma RetreiveAvailableKey_free_empty:
  "\<not> mu km \<Longrightarrow> available km = [] \<Longrightarrow>
     RetreiveAvailableKey r now1 now2 now3 km = Some (Inl NoKeysAvailable, km)"
  by (simp add: RetreiveAvailableKey_def Lock_mu_def Unlock_mu_def Let_def)

lemma RetreiveAvailableKey_free_nonempty:
  "\<not> mu km \<Longrightarrow> available km \<noteq> [] \<Longrightarrow>
     RetreiveAvailableKey r now1 now2 now3 km =
       Some (Inr (available km ! Intn r (length (available km))),
             km\<lparr>keys := (keys km)(available km ! Intn r (length (available km)) \<mapsto>
                    \<lparr>Key = available km ! Intn r (length (available km)),
                     CreationTime = zeroTime, LastAccess = now1,
                     IsBlocked = True, BlockedAt = now2\<rparr>),
                available := take (Intn r (length (available km))) (available km)
                             @ drop (Intn r (length (available km)) + 1) (available km),
                blocked := (blocked km)(available km ! Intn r (length (available km)) \<mapsto> now3)\<rparr>)"
  by (simp add: RetreiveAvailableKey_def Lock_mu_def Unlock_mu_def Let_def)

lemma KeepAlive_free_present:
  "\<not> mu km \<Longrightarrow> keys km key = Some md \<Longrightarrow>
     KeepAlive key now km =
       Some (None, km\<lparr>keys := (keys km)(key \<mapsto> md\<lparr>LastAccess := now\<rparr>)\<rparr>)"
  by (simp add: KeepAlive_def Lock_mu_def Unlock_mu_def Let_def index_keys_def)

lemma KeepAlive_free_absent:
  "\<not> mu km \<Longrightarrow> keys km key = None \<Longrightarrow>
     KeepAlive key now km = Some (Some KeyDoesNotExist, km)"
  by (simp add: KeepAlive_def Lock_mu_def Unlock_mu_def Let_def)

lemma GetKeyInfo_free:
  "\<not> mu km \<Longrightarrow>
     GetKeyInfo key km =
       Some (case keys km key of None \<Rightarrow> Inl KeyDoesNotExist | Some md \<Rightarrow> Inr md, km)"
  by (simp add: GetKeyInfo_def Lock_mu_def Unlock_mu_def split: option.splits)

lemma pool_created_eq: "GenerateNewKey 7 100 NewKeyManager = Some (''key7'', pool_created)"
  by (simp add: GenerateNewKey_free NewKeyManager_def pool_created_def GenerateRandomKey_def
      Itoa.simps zeroTime_def)

lemma pool_checked_out_eq:
  "RetreiveAvailableKey 0 201 202 203 pool_created = Some (Inr ''key7'', pool_checked_out)"
  by (simp add: RetreiveAvailableKey_free_nonempty pool_created_def pool_checked_out_def
      Intn_def zeroTime_def)

lemma pool_stale_eq: "DeleteKey ''key7'' pool_created = Some (None, pool_stale)"
  by (simp add: DeleteKey_free pool_created_def pool_stale_def)

section \<open>The two passes of the background task\<close>

lemma unblockExpired_UnblockKey:
  "\<not> mu km \<Longrightarrow> blocked km key = Some t \<Longrightarrow>
     UnblockKey key km = Some (None, unblockExpired key km)"
  by (simp add: UnblockKey_free_blocked unblockExpired_def Let_def)

lemma blockExpired_Sub:
  "blocked km key = Some t \<Longrightarrow> blockExpired now km key = (20 * Second < Sub now t)"
  by (simp add: blockExpired_def Sub_gt_iff Second_def maxDuration_def minDuration_def)

lemma unblockExpired_fields [simp]:
  "mu (unblockExpired key km) = mu km"
  "blockMu (unblockExpired key km) = blockMu km"
  "blocked (unblockExpired key km) = (blocked km)(key := None)"
  "available (unblockExpired key km) = available km @ [key]"
  "keys (unblockExpired key km) = (keys km)(key \<mapsto> (index_keys (keys km) key)\<lparr>IsBlocked := False\<rparr>)"
  by (simp_all add: unblockExpired_def Let_def)

lemma unblockExpired_blockMu:
  "unblockExpired key (km\<lparr>blockMu := b\<rparr>) = (unblockExpired key km)\<lparr>blockMu := b\<rparr>"
  by (simp add: unblockExpired_def Let_def)

lemma blockTimeoutLoop_blockMu:
  "blockTimeoutLoop now order (km\<lparr>blockMu := b\<rparr>) = (blockTimeoutLoop now order km)\<lparr>blockMu := b\<rparr>"
  by (induction order arbitrary: km) (simp_all add: unblockExpired_blockMu split: option.splits)

lemma blockTimeoutLoop_locks [simp]:
  "mu (blockTimeoutLoop now order km) = mu km"
  "blockMu (blockTimeoutLoop now order km) = blockMu km"
  by (induction order arbitrary: km) (simp_all split: option.splits)

lemma blockTimeoutPass_free:
  assumes "\<not> blockMu km"
  shows "blockTimeoutPass now order km = Some (blockTimeoutLoop now order km)"
proof -
  have "(blockTimeoutLoop now order km)\<lparr>blockMu := False\<rparr> = blockTimeoutLoop now order km"
    using assms by simp
  with assms show ?thesis
    by (simp add: blockTimeoutPass_def Lock_blockMu_def Unlock_blockMu_def
        blockTimeoutLoop_blockMu)
qed

lemma blockExpired_unblockExpired:
  "k \<noteq> key \<Longrightarrow> blockExpired now (unblockExpired key km) k = blockExpired now km k"
  by (simp add: blockExpired_def)

lemma releaseAll_blockTimeoutLoop:
  "\<not> mu km \<Longrightarrow> distinct order \<Longrightarrow>
     releaseAll (filter (blockExpired now km) order) km = Some (blockTimeoutLoop now order km)"
proof (induction order arbitrary: km)
  case Nil
  show ?case by simp
next
  case (Cons key rest)
  from Cons.prems have free: "\<not> mu km" and fresh: "key \<notin> set rest" and rest: "distinct rest"
    by simp_all
  show ?case
  proof (cases "blocked km key")
    case None
    then have "\<not> blockExpired now km key"
      by (simp add: blockExpired_def)
    with None Cons.IH [OF free rest] show ?thesis
      by simp
  next
    case (Some t)
    show ?thesis
    proof (cases "blockExpired now km key")
      case False
      with Some Cons.IH [OF free rest] show ?thesis
        by (simp add: blockExpired_Sub [OF Some, symmetric])
    next
      case True
      have other: "k \<noteq> key" if "k \<in> set rest" for k
        using that fresh by auto
      have same: "filter (blockExpired now km) rest
                  = filter (blockExpired now (unblockExpired key km)) rest"
        by (intro filter_cong refl) (simp add: blockExpired_unblockExpired other)
      have "\<not> mu (unblockExpired key km)"
        using free by simp
      from Cons.IH [OF this rest]
      have "releaseAll (filter (blockExpired now km) rest) (unblockExpired key km)
            = Some (blockTimeoutLoop now rest (unblockExpired key km))"
        by (simp add: same)
      with True Some free show ?thesis
        by (simp add: unblockExpired_UnblockKey blockExpired_Sub [OF Some, symmetric])
    qed
  qed
qed

lemma idleExpiryLoop_held:
  "mu km \<Longrightarrow>
     idleExpiryLoop now order km =
       (if list_ex (\<lambda>key. case keys km key of None \<Rightarrow> False
                          | Some metadata \<Rightarrow> 1 * Minute < Sub now (LastAccess metadata)) order
        then None else Some km)"
  by (induction order) (simp_all add: DeleteKey_held split: option.splits)

lemma idleExpiryPass_free:
  assumes "\<not> mu km"
  shows "idleExpiryPass now order km =
       (if list_ex (\<lambda>key. case keys km key of None \<Rightarrow> False
                          | Some metadata \<Rightarrow> 1 * Minute < Sub now (LastAccess metadata)) order
        then None else Some km)"
proof -
  have "mu (km\<lparr>mu := True\<rparr>)" by simp
  from idleExpiryLoop_held [OF this, of now order] assms show ?thesis
    by (simp add: idleExpiryPass_def Lock_mu_def Unlock_mu_def)
qed

section \<open>The invariant of the pool\<close>

lemma set_remove_nth:
  assumes "distinct xs" and "i < length xs"
  shows "set (take i xs @ drop (Suc i) xs) = set xs - {xs ! i}"
proof -
  have split: "xs = take i xs @ xs ! i # drop (Suc i) xs"
    using assms(2) by (rule id_take_nth_drop)
  then have "distinct (take i xs @ xs ! i # drop (Suc i) xs)"
    using assms(1) by simp
  then have "xs ! i \<notin> set (take i xs @ drop (Suc i) xs)"
    by auto
  moreover have "set xs = insert (xs ! i) (set (take i xs @ drop (Suc i) xs))"
    by (subst split) auto
  ultimately show ?thesis
    by auto
qed

lemma distinct_remove_nth:
  "distinct xs \<Longrightarrow> distinct (take i xs @ drop (Suc i) xs)"
  by (simp add: set_take_disj_set_drop_if_distinct)

lemma pool_inv_New: "pool_inv NewKeyManager"
  by (simp add: pool_inv_def NewKeyManager_def)

lemma pool_inv_GenerateNewKey:
  assumes "pool_inv km" and "unusedKey km (GenerateRandomKey r)"
    and "GenerateNewKey r now km = Some (key, km')"
  shows "pool_inv km'"
proof -
  from assms(1) have free: "\<not> mu km"
    by (simp add: pool_inv_def)
  from assms(3) have "km' = km\<lparr>keys := (keys km)(GenerateRandomKey r \<mapsto>
                    \<lparr>Key = GenerateRandomKey r, CreationTime = now, LastAccess = zeroTime,
                     IsBlocked = False, BlockedAt = zeroTime\<rparr>),
                available := available km @ [GenerateRandomKey r]\<rparr>"
    by (auto simp add: GenerateNewKey_free [OF free])
  with assms(1,2) show ?thesis
    by (auto simp: pool_inv_def unusedKey_def)
qed

lemma pool_inv_RetreiveAvailableKey:
  assumes "pool_inv km" and "RetreiveAvailableKey r now1 now2 now3 km = Some (res, km')"
  shows "pool_inv km'"
proof (cases "available km = []")
  case True
  with assms show ?thesis
    by (simp add: RetreiveAvailableKey_free_empty pool_inv_def)
next
  case False
  from assms(1) have free: "\<not> mu km" and dist: "distinct (available km)"
    by (simp_all add: pool_inv_def)
  let ?i = "Intn r (length (available km))"
  have i: "?i < length (available km)"
    using False by (simp add: Intn_def)
  from assms(2) have km': "km' = km\<lparr>keys := (keys km)(available km ! ?i \<mapsto>
                    \<lparr>Key = available km ! ?i,
                     CreationTime = zeroTime, LastAccess = now1,
                     IsBlocked = True, BlockedAt = now2\<rparr>),
                available := take ?i (available km) @ drop (?i + 1) (available km),
                blocked := (blocked km)(available km ! ?i \<mapsto> now3)\<rparr>"
    by (simp add: RetreiveAvailableKey_free_nonempty [OF free False])
  have rest: "set (take ?i (available km) @ drop (Suc ?i) (available km))
              = set (available km) - {available km ! ?i}"
    using dist i by (rule set_remove_nth)
  have dist': "distinct (take ?i (available km) @ drop (Suc ?i) (available km))"
    using dist by (rule distinct_remove_nth)
  have fields: "mu km' = mu km" "blockMu km' = blockMu km"
    "available km' = take ?i (available km) @ drop (Suc ?i) (available km)"
    "dom (blocked km') = insert (available km ! ?i) (dom (blocked km))"
    "dom (keys km') = insert (available km ! ?i) (dom (keys km))"
    by (simp_all add: km')
  from assms(1) have "set (available km) \<inter> dom (blocked km) = {}"
    and "dom (blocked km) \<subseteq> dom (keys km)" and "\<not> mu km" and "\<not> blockMu km"
    by (simp_all add: pool_inv_def)
  then show ?thesis
    unfolding pool_inv_def fields rest using dist' by blast
qed

lemma pool_inv_unblockExpired:
  assumes "pool_inv km" and "blocked km key = Some t"
  shows "pool_inv (unblockExpired key km)"
  using assms by (auto simp: pool_inv_def)

lemma pool_inv_UnblockKey:
  assumes "pool_inv km" and "UnblockKey key km = Some (err, km')"
  shows "pool_inv km'"
proof (cases "blocked km key")
  case None
  with assms show ?thesis
    by (simp add: UnblockKey_free_not_blocked pool_inv_def)
next
  case (Some t)
  from assms(1) have "\<not> mu km"
    by (simp add: pool_inv_def)
  with assms(2) Some have "km' = unblockExpired key km"
    by (simp add: unblockExpired_UnblockKey)
  with assms(1) Some show ?thesis
    by (simp add: pool_inv_unblockExpired)
qed

lemma pool_inv_DeleteKey:
  assumes "pool_inv km" and "DeleteKey key km = Some (err, km')"
  shows "pool_inv km'"
proof -
  from assms(1) have "\<not> mu km"
    by (simp add: pool_inv_def)
  with assms(2) have "km' = km\<lparr>keys := (keys km)(key := None),
                                blocked := (blocked km)(key := None)\<rparr>"
    by (simp add: DeleteKey_free)
  with assms(1) show ?thesis
    by (auto simp: pool_inv_def)
qed

lemma pool_inv_KeepAlive:
  assumes "pool_inv km" and "KeepAlive key now km = Some (err, km')"
  shows "pool_inv km'"
proof (cases "keys km key")
  case None
  with assms show ?thesis
    by (simp add: KeepAlive_free_absent pool_inv_def)
next
  case (Some md)
  from assms(1) have "\<not> mu km"
    by (simp add: pool_inv_def)
  with assms(2) Some have "km' = km\<lparr>keys := (keys km)(key \<mapsto> md\<lparr>LastAccess := now\<rparr>)\<rparr>"
    by (simp add: KeepAlive_free_present)
  with assms(1) show ?thesis
    by (auto simp: pool_inv_def)
qed

lemma pool_inv_GetKeyInfo:
  assumes "pool_inv km" and "GetKeyInfo key km = Some (info, km')"
  shows "pool_inv km'"
  using assms by (simp add: GetKeyInfo_free pool_inv_def)

lemma pool_inv_blockTimeoutLoop:
  "pool_inv km \<Longrightarrow> pool_inv (blockTimeoutLoop now order km)"
  by (induction order arbitrary: km) (simp_all add: pool_inv_unblockExpired split: option.splits)

lemma pool_inv_blockTimeoutPass:
  assumes "pool_inv km" and "blockTimeoutPass now order km = Some km'"
  shows "pool_inv km'"
proof -
  from assms(1) have "\<not> blockMu km"
    by (simp add: pool_inv_def)
  with assms(2) have "km' = blockTimeoutLoop now order km"
    by (simp add: blockTimeoutPass_free)
  with assms(1) show ?thesis
    by (simp add: pool_inv_blockTimeoutLoop)
qed

lemma pool_inv_idleExpiryPass:
  assumes "pool_inv km" and "idleExpiryPass now order km = Some km'"
  shows "pool_inv km'"
proof -
  from assms(1) have "\<not> mu km"
    by (simp add: pool_inv_def)
  with assms(2) have "km' = km"
    by (simp add: idleExpiryPass_free split: if_splits)
  with assms(1) show ?thesis
    by simp
qed

lemma reachable_pool_inv: "reachable unusedKey km \<Longrightarrow> pool_inv km"
proof (induction rule: reachable.induct)
  case reachable_New
  show ?case by (rule pool_inv_New)
next
  case (reachable_GenerateNewKey km r now key km')
  then show ?case by (blast intro: pool_inv_GenerateNewKey)
next
  case (reachable_RetreiveAvailableKey km r now1 now2 now3 res km')
  then show ?case by (blast intro: pool_inv_RetreiveAvailableKey)
next
  case (reachable_UnblockKey km key err km')
  then show ?case by (blast intro: pool_inv_UnblockKey)
next
  case (reachable_DeleteKey km key err km')
  then show ?case by (blast intro: pool_inv_DeleteKey)
next
  case (reachable_KeepAlive km key now err km')
  then show ?case by (blast intro: pool_inv_KeepAlive)
next
  case (reachable_GetKeyInfo km key info km')
  then show ?case by (blast intro: pool_inv_GetKeyInfo)
next
  case (reachable_blockTimeoutPass km order now km')
  then show ?case by (blast intro: pool_inv_blockTimeoutPass)
next
  case (reachable_idleExpiryPass km order now km')
  then show ?case by (blast intro: pool_inv_idleExpiryPass)
qed

lemma reachable_pool_created: "reachable unusedKey pool_created"
proof -
  have "unusedKey NewKeyManager (GenerateRandomKey 7)"
    by (simp add: unusedKey_def NewKeyManager_def)
  with reachable_New show ?thesis
    using pool_created_eq by (rule reachable_GenerateNewKey)
qed

lemma reachable_pool_checked_out: "reachable unusedKey pool_checked_out"
  using reachable_pool_created pool_checked_out_eq by (rule reachable_RetreiveAvailableKey)

lemma reachable_pool_stale: "reachable unusedKey pool_stale"
  using reachable_pool_created pool_stale_eq by (rule reachable_DeleteKey)

lemma reachable_pool_collided: "reachable anyKey pool_collided"
proof -
  have any: "anyKey km key" for km key
    by (simp add: anyKey_def)
  have once: "reachable anyKey pool_created"
    using reachable_New any pool_created_eq by (rule reachable_GenerateNewKey)
  have "GenerateNewKey 7 101 pool_created = Some (''key7'', pool_created_twice)"
    by (simp add: GenerateNewKey_free pool_created_def pool_created_twice_def
        GenerateRandomKey_def Itoa.simps zeroTime_def)
  with once any have "reachable anyKey pool_created_twice"
    by (rule reachable_GenerateNewKey)
  moreover have "RetreiveAvailableKey 0 201 202 203 pool_created_twice
                 = Some (Inr ''key7'', pool_collided)"
    by (simp add: RetreiveAvailableKey_free_nonempty pool_created_twice_def pool_collided_def
        Intn_def zeroTime_def)
  ultimately show ?thesis
    by (rule reachable_RetreiveAvailableKey)
qed

section \<open>The claims\<close>

text \<open>
  Claim C1 (pool-state invariant). As stated, for every state reachable by the
  methods and the passes: the ids of \<open>available\<close> and the keys of \<open>blocked\<close> are
  disjoint, and both lie within the keys of \<open>keys\<close>. What holds on the code, when
  \<^verbatim>\<open>GenerateNewKey\<close> only ever draws a key that is in none of the three structures:
  \<open>available\<close> has no duplicates and is disjoint from the keys of \<open>blocked\<close>, and the
  keys of \<open>blocked\<close> lie within the keys of \<open>keys\<close>. Nothing is said of
  \<open>available\<close> against \<open>keys\<close>.
\<close>

theorem C1_pool_invariant:
  assumes "reachable unusedKey km"
  shows "distinct (available km)
       \<and> set (available km) \<inter> dom (blocked km) = {}
       \<and> dom (blocked km) \<subseteq> dom (keys km)"
  using reachable_pool_inv [OF assms] by (simp add: pool_inv_def)

text \<open>
  The invariant at the pool in which the one key created has been handed out, a
  reachable state.
\<close>

theorem C1_pool_invariant_witness:
  "distinct (available pool_checked_out)
   \<and> set (available pool_checked_out) \<inter> dom (blocked pool_checked_out) = {}
   \<and> dom (blocked pool_checked_out) \<subseteq> dom (keys pool_checked_out)"
  using C1_pool_invariant [OF reachable_pool_checked_out] .

text \<open>
  Two reachable states where the invariant as stated fails. After
  \<^verbatim>\<open>GenerateNewKey\<close> and \<^verbatim>\<open>DeleteKey\<close> of the same key, the key is still in
  \<open>available\<close> and no longer in \<open>keys\<close>. After \<^verbatim>\<open>GenerateNewKey\<close> has drawn the
  same key twice and \<^verbatim>\<open>RetreiveAvailableKey\<close> has handed it out once, the key is in
  \<open>available\<close> and in \<open>blocked\<close>.
\<close>

theorem C1_invariant_counterexample:
  "reachable unusedKey pool_stale
   \<and> \<not> set (available pool_stale) \<subseteq> dom (keys pool_stale)
   \<and> reachable anyKey pool_collided
   \<and> set (available pool_collided) \<inter> dom (blocked pool_collided) \<noteq> {}"
  using reachable_pool_stale reachable_pool_collided
  by (simp add: pool_stale_def pool_collided_def)

text \<open>
  Claim C2 (\<^verbatim>\<open>CreationTime\<close> is never overwritten). \<^verbatim>\<open>UnblockKey\<close>,
  \<^verbatim>\<open>KeepAlive\<close> and the first pass of the background task read the record, change
  one field and store it back; \<^verbatim>\<open>RetreiveAvailableKey\<close> stores a new record whose
  \<^verbatim>\<open>CreationTime\<close> is the zero instant. Evaluated: a key created at instant \<open>100\<close>
  and then handed out has \<^verbatim>\<open>CreationTime\<close> \<open>0\<close>.
\<close>

theorem C2_CreationTime_overwritten:
  "GenerateNewKey 7 100 NewKeyManager = Some (''key7'', pool_created)
   \<and> map_option CreationTime (keys pool_created ''key7'') = Some 100
   \<and> RetreiveAvailableKey 0 201 202 203 pool_created = Some (Inr ''key7'', pool_checked_out)
   \<and> map_option CreationTime (keys pool_checked_out ''key7'') = Some zeroTime
   \<and> zeroTime \<noteq> 100"
  by (simp add: pool_created_eq pool_checked_out_eq)
    (simp add: pool_created_def pool_checked_out_def zeroTime_def)

text \<open>
  Claim C3 (\<^verbatim>\<open>DeleteKey\<close>). Called with \<^verbatim>\<open>mu\<close> free, \<^verbatim>\<open>DeleteKey\<close>
  returns the nil error whatever the key, removes the key from \<open>keys\<close> and from
  \<open>blocked\<close>, leaves \<open>available\<close> as it is, and called once more on the state it
  returns it returns that same state.
\<close>

theorem C3_DeleteKey:
  assumes "\<not> mu km"
  shows "\<exists>km'. DeleteKey key km = Some (None, km')
           \<and> keys km' = (keys km)(key := None)
           \<and> blocked km' = (blocked km)(key := None)
           \<and> available km' = available km
           \<and> DeleteKey key km' = Some (None, km')"
proof -
  let ?km' = "km\<lparr>keys := (keys km)(key := None), blocked := (blocked km)(key := None)\<rparr>"
  have first: "DeleteKey key km = Some (None, ?km')"
    using assms by (rule DeleteKey_free)
  have "\<not> mu ?km'"
    using assms by simp
  then have "DeleteKey key ?km' = Some (None, ?km')"
    by (simp add: DeleteKey_free)
  with first show ?thesis
    by simp
qed

text \<open>
  \<^verbatim>\<open>DeleteKey\<close> on the one key of a pool, which is queued in \<open>available\<close> and
  stays there.
\<close>

theorem C3_DeleteKey_witness:
  "\<exists>km'. DeleteKey ''key7'' pool_created = Some (None, km')
     \<and> keys km' = (keys pool_created)(''key7'' := None)
     \<and> blocked km' = (blocked pool_created)(''key7'' := None)
     \<and> available km' = [''key7'']
     \<and> DeleteKey ''key7'' km' = Some (None, km')"
  using C3_DeleteKey [of pool_created "''key7''"] by (simp add: pool_created_def)

text \<open>
  Claim C4 (\<^verbatim>\<open>RetreiveAvailableKey\<close>). As stated, the record's \<^verbatim>\<open>LastAccess\<close> and
  \<^verbatim>\<open>BlockedAt\<close> and the entry of \<open>blocked\<close> hold one and the same timestamp. On
  the code they hold three successive readings of the clock. Called with \<^verbatim>\<open>mu\<close>
  free: when \<open>available\<close> is empty the method fails with \<open>NoKeysAvailable\<close> and
  changes nothing; otherwise it draws an index below the length of \<open>available\<close>
  (every index can be drawn), removes the key at that index from \<open>available\<close>, stores
  for it a record with \<^verbatim>\<open>LastAccess\<close> the first reading, \<^verbatim>\<open>IsBlocked\<close> true and
  \<^verbatim>\<open>BlockedAt\<close> the second reading, enters it in \<open>blocked\<close> with the third reading,
  returns it, and leaves the record of every other key alone.
\<close>

theorem C4_RetreiveAvailableKey:
  assumes "\<not> mu km"
  shows "(available km = [] \<longrightarrow>
            RetreiveAvailableKey r now1 now2 now3 km = Some (Inl NoKeysAvailable, km))
       \<and> (available km \<noteq> [] \<longrightarrow>
            (\<exists>i key km' metadata.
               i = Intn r (length (available km)) \<and> i < length (available km)
               \<and> key = available km ! i
               \<and> RetreiveAvailableKey r now1 now2 now3 km = Some (Inr key, km')
               \<and> available km' = take i (available km) @ drop (Suc i) (available km)
               \<and> keys km' key = Some metadata
               \<and> Key metadata = key \<and> LastAccess metadata = now1
               \<and> IsBlocked metadata = True \<and> BlockedAt metadata = now2
               \<and> blocked km' = (blocked km)(key \<mapsto> now3)
               \<and> (\<forall>k. k \<noteq> key \<longrightarrow> keys km' k = keys km k)))
       \<and> (\<forall>i < length (available km). Intn i (length (available km)) = i)"
proof (intro conjI impI allI)
  assume "available km = []"
  with assms show "RetreiveAvailableKey r now1 now2 now3 km = Some (Inl NoKeysAvailable, km)"
    by (rule RetreiveAvailableKey_free_empty)
next
  assume nonempty: "available km \<noteq> []"
  then have "Intn r (length (available km)) < length (available km)"
    by (simp add: Intn_def)
  then show "\<exists>i key km' metadata.
               i = Intn r (length (available km)) \<and> i < length (available km)
               \<and> key = available km ! i
               \<and> RetreiveAvailableKey r now1 now2 now3 km = Some (Inr key, km')
               \<and> available km' = take i (available km) @ drop (Suc i) (available km)
               \<and> keys km' key = Some metadata
               \<and> Key metadata = key \<and> LastAccess metadata = now1
               \<and> IsBlocked metadata = True \<and> BlockedAt metadata = now2
               \<and> blocked km' = (blocked km)(key \<mapsto> now3)
               \<and> (\<forall>k. k \<noteq> key \<longrightarrow> keys km' k = keys km k)"
    using assms nonempty by (simp add: RetreiveAvailableKey_free_nonempty)
next
  fix i
  assume "i < length (available km)"
  then show "Intn i (length (available km)) = i"
    by (simp add: Intn_def)
qed

text \<open>
  The empty pool, where the method fails, and the pool of one key, which is handed
  out.
\<close>

theorem C4_RetreiveAvailableKey_witness:
  "RetreiveAvailableKey 0 201 202 203 NewKeyManager = Some (Inl NoKeysAvailable, NewKeyManager)
   \<and> (\<exists>km' metadata.
         RetreiveAvailableKey 0 201 202 203 pool_created = Some (Inr ''key7'', km')
         \<and> available km' = []
         \<and> keys km' ''key7'' = Some metadata
         \<and> Key metadata = ''key7'' \<and> LastAccess metadata = 201
         \<and> IsBlocked metadata = True \<and> BlockedAt metadata = 202
         \<and> blocked km' = [''key7'' \<mapsto> 203])"
  using C4_RetreiveAvailableKey [of NewKeyManager 0 201 202 203]
    C4_RetreiveAvailableKey [of pool_created 0 201 202 203]
  by (auto simp add: NewKeyManager_def pool_created_def Intn_def)

text \<open>
  With the readings \<open>201\<close>, \<open>202\<close> and \<open>203\<close> of the clock, no single timestamp
  is in all three places.
\<close>

theorem C4_same_timestamp_counterexample:
  "RetreiveAvailableKey 0 201 202 203 pool_created = Some (Inr ''key7'', pool_checked_out)
   \<and> map_option LastAccess (keys pool_checked_out ''key7'') = Some 201
   \<and> map_option BlockedAt (keys pool_checked_out ''key7'') = Some 202
   \<and> blocked pool_checked_out ''key7'' = Some 203
   \<and> \<not> (\<exists>now. map_option LastAccess (keys pool_checked_out ''key7'') = Some now
              \<and> map_option BlockedAt (keys pool_checked_out ''key7'') = Some now
              \<and> blocked pool_checked_out ''key7'' = Some now)"
proof (intro conjI)
  show "RetreiveAvailableKey 0 201 202 203 pool_created = Some (Inr ''key7'', pool_checked_out)"
    by (rule pool_checked_out_eq)
qed (simp_all add: pool_checked_out_def)

text \<open>
  Claim C5 (idle expiry). The second pass of the background task holds \<^verbatim>\<open>mu\<close>
  while it calls \<^verbatim>\<open>DeleteKey\<close>, which locks \<^verbatim>\<open>mu\<close> again. Evaluated on a key
  handed out at instant \<open>201\<close>: the round twenty-one seconds later releases it and
  returns; in the round sixty-one seconds later the key's \<^verbatim>\<open>LastAccess\<close> is more
  than a minute old, the second pass never returns, and neither does the round. No
  record is removed.
\<close>

theorem C5_idle_expiry_never_returns:
  "BackgroundTask_round (21 * Second + 203) [''key7''] [''key7''] pool_checked_out
     = Some pool_released
   \<and> map_option LastAccess (keys pool_released ''key7'') = Some 201
   \<and> 1 * Minute < Sub (61 * Second + 203) 201
   \<and> idleExpiryPass (61 * Second + 203) [''key7''] pool_released = None
   \<and> BackgroundTask_round (61 * Second + 203) [] [''key7''] pool_released = None"
proof -
  have pass1: "blockTimeoutPass (21 * Second + 203) [''key7''] pool_checked_out
               = Some pool_released"
    by (simp add: blockTimeoutPass_free pool_checked_out_def pool_released_def
        unblockExpired_def index_keys_def Sub_def Second_def maxDuration_def minDuration_def)
  have young: "\<not> 1 * Minute < Sub (21 * Second + 203) 201"
    and old: "1 * Minute < Sub (61 * Second + 203) 201"
    by (simp_all add: Sub_def Minute_def Second_def maxDuration_def minDuration_def)
  have last: "keys pool_released ''key7'' =
          Some \<lparr>Key = ''key7'', CreationTime = 0, LastAccess = 201,
                IsBlocked = False, BlockedAt = 202\<rparr>"
    and free: "\<not> mu pool_released" and "\<not> blockMu pool_released"
    by (simp_all add: pool_released_def)
  then have none: "blockTimeoutPass (61 * Second + 203) [] pool_released = Some pool_released"
    by (simp add: blockTimeoutPass_free)
  have kept: "idleExpiryPass (21 * Second + 203) [''key7''] pool_released = Some pool_released"
    using young last by (simp add: idleExpiryPass_free [OF free])
  have stuck: "idleExpiryPass (61 * Second + 203) [''key7''] pool_released = None"
    using old last by (simp add: idleExpiryPass_free [OF free])
  show ?thesis
    using pass1 kept none stuck old last by (simp add: BackgroundTask_round_def)
qed

text \<open>
  Claim C6 (\<^verbatim>\<open>UnblockKey\<close>). Called with \<^verbatim>\<open>mu\<close> free: for a key that is not in
  \<open>blocked\<close> the method fails with \<open>KeyNotBlockedOrNotExist\<close> and changes nothing;
  for a key in \<open>blocked\<close> it returns the nil error, stores the key's record with
  \<^verbatim>\<open>IsBlocked\<close> false, removes the key from \<open>blocked\<close>, appends it to
  \<open>available\<close>, and a second call right after fails with
  \<open>KeyNotBlockedOrNotExist\<close>.
\<close>

theorem C6_UnblockKey:
  assumes "\<not> mu km"
  shows "(key \<notin> dom (blocked km) \<longrightarrow>
            UnblockKey key km = Some (Some KeyNotBlockedOrNotExist, km))
       \<and> (key \<in> dom (blocked km) \<longrightarrow>
            (\<exists>km'. UnblockKey key km = Some (None, km')
               \<and> keys km' = (keys km)(key \<mapsto> (index_keys (keys km) key)\<lparr>IsBlocked := False\<rparr>)
               \<and> blocked km' = (blocked km)(key := None)
               \<and> available km' = available km @ [key]
               \<and> UnblockKey key km' = Some (Some KeyNotBlockedOrNotExist, km')))"
proof (intro conjI impI)
  assume "key \<notin> dom (blocked km)"
  then have "blocked km key = None"
    by (simp add: domIff)
  with assms show "UnblockKey key km = Some (Some KeyNotBlockedOrNotExist, km)"
    by (rule UnblockKey_free_not_blocked)
next
  assume "key \<in> dom (blocked km)"
  then obtain t where t: "blocked km key = Some t"
    by auto
  let ?km' = "km\<lparr>keys := (keys km)(key \<mapsto> (index_keys (keys km) key)\<lparr>IsBlocked := False\<rparr>),
                  available := available km @ [key],
                  blocked := (blocked km)(key := None)\<rparr>"
  have first: "UnblockKey key km = Some (None, ?km')"
    using assms t by (rule UnblockKey_free_blocked)
  have "\<not> mu ?km'" and "blocked ?km' key = None"
    using assms by simp_all
  then have "UnblockKey key ?km' = Some (Some KeyNotBlockedOrNotExist, ?km')"
    by (rule UnblockKey_free_not_blocked)
  with first show "\<exists>km'. UnblockKey key km = Some (None, km')
      \<and> keys km' = (keys km)(key \<mapsto> (index_keys (keys km) key)\<lparr>IsBlocked := False\<rparr>)
      \<and> blocked km' = (blocked km)(key := None)
      \<and> available km' = available km @ [key]
      \<and> UnblockKey key km' = Some (Some KeyNotBlockedOrNotExist, km')"
    by simp
qed

text \<open>
  A key that was never created, and the one key of a pool, which is handed out.
\<close>

theorem C6_UnblockKey_witness:
  "UnblockKey ''key8'' pool_checked_out = Some (Some KeyNotBlockedOrNotExist, pool_checked_out)
   \<and> (\<exists>km'. UnblockKey ''key7'' pool_checked_out = Some (None, km')
         \<and> keys km' = [''key7'' \<mapsto> \<lparr>Key = ''key7'', CreationTime = 0, LastAccess = 201,
                                         IsBlocked = False, BlockedAt = 202\<rparr>]
         \<and> blocked km' = Map.empty
         \<and> available km' = [''key7'']
         \<and> UnblockKey ''key7'' km' = Some (Some KeyNotBlockedOrNotExist, km'))"
  using C6_UnblockKey [of pool_checked_out "''key8''"]
    C6_UnblockKey [of pool_checked_out "''key7''"]
  by (simp add: pool_checked_out_def index_keys_def)

text \<open>
  Claim C7 (the block timeout is a release). For a pool with both locks free and
  any order in which the pass visits \<open>blocked\<close>: the body of the loop does to a
  blocked key exactly what \<^verbatim>\<open>UnblockKey\<close> does to it, the pass as a whole is
  \<^verbatim>\<open>UnblockKey\<close> called in turn on the keys whose entry in \<open>blocked\<close> is more
  than twenty seconds older than \<open>now\<close>, and the pass returns.
\<close>

theorem C7_blockTimeoutPass_releases:
  assumes "\<not> mu km" and "\<not> blockMu km"
    and "distinct order" and "set order = dom (blocked km)"
  shows "(\<forall>key \<in> dom (blocked km).
            UnblockKey key km = Some (None, unblockExpired key km))
       \<and> blockTimeoutPass now order km = releaseAll (filter (blockExpired now km) order) km
       \<and> (\<exists>km'. blockTimeoutPass now order km = Some km')"
proof (intro conjI ballI)
  fix key
  assume "key \<in> dom (blocked km)"
  then obtain t where "blocked km key = Some t"
    by auto
  with assms(1) show "UnblockKey key km = Some (None, unblockExpired key km)"
    by (rule unblockExpired_UnblockKey)
next
  show "blockTimeoutPass now order km = releaseAll (filter (blockExpired now km) order) km"
    using assms by (simp add: blockTimeoutPass_free releaseAll_blockTimeoutLoop)
next
  show "\<exists>km'. blockTimeoutPass now order km = Some km'"
    using assms(2) by (simp add: blockTimeoutPass_free)
qed

text \<open>
  The pool whose one key was handed out at instant \<open>203\<close>, swept twenty-one
  seconds later.
\<close>

theorem C7_blockTimeoutPass_releases_witness:
  "UnblockKey ''key7'' pool_checked_out = Some (None, pool_released)
   \<and> unblockExpired ''key7'' pool_checked_out = pool_released
   \<and> blockExpired (21 * Second + 203) pool_checked_out ''key7''
   \<and> blockTimeoutPass (21 * Second + 203) [''key7''] pool_checked_out = Some pool_released
   \<and> releaseAll [''key7''] pool_checked_out = Some pool_released"
proof -
  have hyps: "\<not> mu pool_checked_out" "\<not> blockMu pool_checked_out" "distinct [''key7'']"
    "set [''key7''] = dom (blocked pool_checked_out)"
    by (simp_all add: pool_checked_out_def)
  have step: "unblockExpired ''key7'' pool_checked_out = pool_released"
    by (simp add: unblockExpired_def pool_checked_out_def pool_released_def index_keys_def)
  have expired: "blockExpired (21 * Second + 203) pool_checked_out ''key7''"
    by (simp add: blockExpired_def pool_checked_out_def Second_def)
  have "''key7'' \<in> dom (blocked pool_checked_out)"
    by (simp add: pool_checked_out_def)
  with C7_blockTimeoutPass_releases [OF hyps, of "21 * Second + 203"] step expired
  show ?thesis
    by (simp add: UnblockKey_free_blocked)
qed

text \<open>
  Claim C8 (a key never used is swept at once). A key just created has the zero
  instant as \<^verbatim>\<open>LastAccess\<close>. Evaluated for a key created at an instant of the
  year 2026 and a round one second later: the zero instant is more than a minute old,
  so the condition of the idle expiry holds; the pass then calls \<^verbatim>\<open>DeleteKey\<close>
  while it holds \<^verbatim>\<open>mu\<close> and never returns, and the key is not removed.
\<close>

theorem C8_fresh_key_sweep_never_returns:
  "GenerateNewKey 7 now_2026 NewKeyManager = Some (''key7'', pool_fresh)
   \<and> map_option LastAccess (keys pool_fresh ''key7'') = Some zeroTime
   \<and> 1 * Minute < Sub (now_2026 + 1 * Second) zeroTime
   \<and> idleExpiryPass (now_2026 + 1 * Second) [''key7''] pool_fresh = None
   \<and> BackgroundTask_round (now_2026 + 1 * Second) [] [''key7''] pool_fresh = None"
proof -
  have created: "GenerateNewKey 7 now_2026 NewKeyManager = Some (''key7'', pool_fresh)"
    by (simp add: GenerateNewKey_free NewKeyManager_def pool_fresh_def GenerateRandomKey_def
        Itoa.simps zeroTime_def)
  have last: "map_option LastAccess (keys pool_fresh ''key7'') = Some zeroTime"
    by (simp add: pool_fresh_def zeroTime_def)
  have old: "1 * Minute < Sub (now_2026 + 1 * Second) zeroTime"
    by (simp add: Sub_def Minute_def Second_def maxDuration_def minDuration_def now_2026_def
        zeroTime_def)
  have pass1: "blockTimeoutPass (now_2026 + 1 * Second) [] pool_fresh = Some pool_fresh"
    by (simp add: blockTimeoutPass_free pool_fresh_def)
  have pass2: "idleExpiryPass (now_2026 + 1 * Second) [''key7''] pool_fresh = None"
    using old by (simp add: idleExpiryPass_free pool_fresh_def zeroTime_def)
  show ?thesis
    using created last old pass1 pass2 by (simp add: BackgroundTask_round_def)
qed

text \<open>
  Claim C9 (a deleted key that is still queued comes back). For a pool with
  \<^verbatim>\<open>mu\<close> free and a key that is in \<open>available\<close> and not in \<open>keys\<close>: some draw
  selects the key, and whenever the draw selects it, \<^verbatim>\<open>RetreiveAvailableKey\<close>
  returns it and stores for it a record with \<^verbatim>\<open>IsBlocked\<close> true and the zero
  instant as \<^verbatim>\<open>CreationTime\<close>, which \<^verbatim>\<open>GetKeyInfo\<close> then returns.
\<close>

theorem C9_stale_key_resurrected:
  assumes "\<not> mu km" and "key \<in> set (available km)" and "keys km key = None"
  shows "(\<exists>r. available km ! Intn r (length (available km)) = key)
       \<and> (\<forall>r now1 now2 now3.
            available km ! Intn r (length (available km)) = key \<longrightarrow>
            (\<exists>km'. RetreiveAvailableKey r now1 now2 now3 km = Some (Inr key, km')
               \<and> keys km' key =
                    Some \<lparr>Key = key, CreationTime = zeroTime, LastAccess = now1,
                          IsBlocked = True, BlockedAt = now2\<rparr>
               \<and> GetKeyInfo key km' =
                    Some (Inr \<lparr>Key = key, CreationTime = zeroTime, LastAccess = now1,
                               IsBlocked = True, BlockedAt = now2\<rparr>, km')))"
proof (intro conjI allI impI)
  from assms(2) obtain i where i: "i < length (available km)" "available km ! i = key"
    by (auto simp: in_set_conv_nth)
  then have "available km ! Intn i (length (available km)) = key"
    by (simp add: Intn_def)
  then show "\<exists>r. available km ! Intn r (length (available km)) = key" ..
next
  fix r now1 now2 now3
  assume drawn: "available km ! Intn r (length (available km)) = key"
  from assms(2) have nonempty: "available km \<noteq> []"
    by auto
  let ?metadata = "\<lparr>Key = key, CreationTime = zeroTime, LastAccess = now1,
                     IsBlocked = True, BlockedAt = now2\<rparr>"
  let ?km' = "km\<lparr>keys := (keys km)(key \<mapsto> ?metadata),
                  available := take (Intn r (length (available km))) (available km)
                               @ drop (Intn r (length (available km)) + 1) (available km),
                  blocked := (blocked km)(key \<mapsto> now3)\<rparr>"
  have first: "RetreiveAvailableKey r now1 now2 now3 km = Some (Inr key, ?km')"
    using RetreiveAvailableKey_free_nonempty [OF assms(1) nonempty, of r now1 now2 now3]
    by (simp add: drawn)
  have "\<not> mu ?km'"
    using assms(1) by simp
  then have "GetKeyInfo key ?km' = Some (Inr ?metadata, ?km')"
    by (simp add: GetKeyInfo_free)
  with first show "\<exists>km'. RetreiveAvailableKey r now1 now2 now3 km = Some (Inr key, km')
      \<and> keys km' key = Some ?metadata \<and> GetKeyInfo key km' = Some (Inr ?metadata, km')"
    by simp
qed

text \<open>
  The pool left by \<^verbatim>\<open>DeleteKey\<close> on a key that is still queued.
\<close>

theorem C9_stale_key_resurrected_witness:
  "DeleteKey ''key7'' pool_created = Some (None, pool_stale)
   \<and> keys pool_stale ''key7'' = None
   \<and> (\<exists>km'. RetreiveAvailableKey 0 201 202 203 pool_stale = Some (Inr ''key7'', km')
         \<and> keys km' ''key7'' =
              Some \<lparr>Key = ''key7'', CreationTime = zeroTime, LastAccess = 201,
                    IsBlocked = True, BlockedAt = 202\<rparr>
         \<and> GetKeyInfo ''key7'' km' =
              Some (Inr \<lparr>Key = ''key7'', CreationTime = zeroTime, LastAccess = 201,
                         IsBlocked = True, BlockedAt = 202\<rparr>, km'))"
proof -
  have "\<not> mu pool_stale" "''key7'' \<in> set (available pool_stale)"
    "keys pool_stale ''key7'' = None"
    "available pool_stale ! Intn 0 (length (available pool_stale)) = ''key7''"
    by (simp_all add: pool_stale_def Intn_def)
  with C9_stale_key_resurrected [of pool_stale "''key7''"] pool_stale_eq
  show ?thesis
    by blast
qed

text \<open>
  Claim C10 (one lock for the whole pool). The six methods and the second pass of
  the background task lock \<^verbatim>\<open>mu\<close>; the first pass locks \<^verbatim>\<open>blockMu\<close> only, which
  nothing else locks. Evaluated on the pool whose one key was handed out at instant
  \<open>203\<close>, while \<^verbatim>\<open>mu\<close> is held: no method and no second pass gets past its
  \<^verbatim>\<open>Lock\<close>, but the first pass, twenty-one seconds later, runs to its end with
  \<^verbatim>\<open>mu\<close> still held and has rewritten the key's record, emptied \<open>blocked\<close>
  and appended to \<open>available\<close>. What two goroutines running at once can then see
  is beyond this embedding, which runs one call at a time.
\<close>

theorem C10_blockTimeoutPass_without_mu:
  "mu pool_mu_held = True
   \<and> GenerateNewKey 8 300 pool_mu_held = None
   \<and> RetreiveAvailableKey 0 300 301 302 pool_mu_held = None
   \<and> UnblockKey ''key7'' pool_mu_held = None
   \<and> DeleteKey ''key7'' pool_mu_held = None
   \<and> KeepAlive ''key7'' 300 pool_mu_held = None
   \<and> GetKeyInfo ''key7'' pool_mu_held = None
   \<and> idleExpiryPass (21 * Second + 203) [''key7''] pool_mu_held = None
   \<and> blockTimeoutPass (21 * Second + 203) [''key7''] pool_mu_held
       = Some pool_mu_held_released
   \<and> mu pool_mu_held_released = True
   \<and> map_option IsBlocked (keys pool_mu_held ''key7'') = Some True
   \<and> map_option IsBlocked (keys pool_mu_held_released ''key7'') = Some False
   \<and> blocked pool_mu_held ''key7'' = Some 203
   \<and> blocked pool_mu_held_released ''key7'' = None
   \<and> available pool_mu_held = []
   \<and> available pool_mu_held_released = [''key7'']"
proof -
  have held: "mu pool_mu_held"
    by (simp add: pool_mu_held_def)
  have free: "\<not> blockMu pool_mu_held"
    by (simp add: pool_mu_held_def pool_checked_out_def)
  have pass1: "blockTimeoutPass (21 * Second + 203) [''key7''] pool_mu_held
               = Some pool_mu_held_released"
    by (simp add: blockTimeoutPass_free [OF free])
      (simp add: pool_mu_held_def pool_mu_held_released_def pool_checked_out_def
        pool_released_def unblockExpired_def index_keys_def Sub_def Second_def
        maxDuration_def minDuration_def)
  have fields: "mu pool_mu_held_released = True"
    "map_option IsBlocked (keys pool_mu_held ''key7'') = Some True"
    "map_option IsBlocked (keys pool_mu_held_released ''key7'') = Some False"
    "blocked pool_mu_held ''key7'' = Some 203"
    "blocked pool_mu_held_released ''key7'' = None"
    "available pool_mu_held = []"
    "available pool_mu_held_released = [''key7'']"
    by (simp_all add: pool_mu_held_def pool_mu_held_released_def pool_checked_out_def
        pool_released_def)
  show ?thesis
    using held pass1 fields
    by (simp add: GenerateNewKey_held RetreiveAvailableKey_held UnblockKey_held
        DeleteKey_held KeepAlive_held GetKeyInfo_held idleExpiryPass_held)
qed

section \<open>When the idle expiry returns\<close>

text \<open>
  Called with \<^verbatim>\<open>mu\<close> free, the second pass of the background task returns exactly
  when no key it visits has a \<^verbatim>\<open>LastAccess\<close> more than a minute old, and then it
  has changed nothing: it never removes a key.
\<close>

theorem idleExpiryPass_returns_unchanged:
  assumes "\<not> mu km"
  shows "idleExpiryPass now order km =
       (if list_ex (\<lambda>key. case keys km key of None \<Rightarrow> False
                          | Some metadata \<Rightarrow> 1 * Minute < Sub now (LastAccess metadata)) order
        then None else Some km)"
  using assms by (rule idleExpiryPass_free)

text \<open>
  The pool whose one key was last used at instant \<open>201\<close>: a pass ten seconds later
  returns the pool as it was, a pass sixty-one seconds later does not return.
\<close>

theorem idleExpiryPass_returns_unchanged_witness:
  "idleExpiryPass (10 * Second + 203) [''key7''] pool_released = Some pool_released
   \<and> idleExpiryPass (61 * Second + 203) [''key7''] pool_released = None"
proof -
  have free: "\<not> mu pool_released"
    by (simp add: pool_released_def)
  have young: "\<not> 1 * Minute < Sub (10 * Second + 203) 201"
    and old: "1 * Minute < Sub (61 * Second + 203) 201"
    by (simp_all add: Sub_def Minute_def Second_def maxDuration_def minDuration_def)
  have "keys pool_released ''key7'' =
          Some \<lparr>Key = ''key7'', CreationTime = 0, LastAccess = 201,
                IsBlocked = False, BlockedAt = 202\<rparr>"
    by (simp add: pool_released_def)
  with young old
    idleExpiryPass_returns_unchanged [OF free, of "10 * Second + 203" "[''key7'']"]
    idleExpiryPass_returns_unchanged [OF free, of "61 * Second + 203" "[''key7'']"]
  show ?thesis
    by simp
qed

end
